theory Spec2Isabelle
  imports Main "HOL-Library.AList" "HOL-Library.Sublist"
begin

section \<open>The worksheet\<close>

text \<open>
  The program keeps its table in one worksheet of \<open>seminars.xlsx\<close>, which it reads and
  writes through the spreadsheet library. The worksheet is the library's dictionary of
  cells, keyed by (row, column), both counted from 1. A cell may be allocated and hold
  nothing: its value is then \<open>None\<close>. The dictionary is an association list, so a
  worksheet is a finite object and every definition below computes.

  Every value the program writes is a Python \<open>str\<close> (a title, a details text, a formatted
  date), so a cell value is a \<open>string option\<close>. Reading a cell that is not allocated
  allocates an empty one in the library; the program only reads rows between 2 and
  \<open>max_row\<close>, where that changes neither a value nor \<open>max_row\<close>, so a read is a lookup.
\<close>

type_synonym sheet = "((nat \<times> nat) \<times> string option) list"

definition cell_value :: "sheet \<Rightarrow> nat \<Rightarrow> nat \<Rightarrow> string option" where
  "cell_value sh r c = (case map_of sh (r, c) of None \<Rightarrow> None | Some v \<Rightarrow> v)"

text \<open>\<open>sheet.cell(row=r, column=c, value=v)\<close> with a string \<open>v\<close>.\<close>

definition set_cell :: "sheet \<Rightarrow> nat \<Rightarrow> nat \<Rightarrow> string \<Rightarrow> sheet" where
  "set_cell sh r c v = AList.update (r, c) (Some v) sh"

text \<open>\<open>sheet.max_row\<close>: the largest row that has a cell, and 1 for a sheet without cells.\<close>

definition max_row :: "sheet \<Rightarrow> nat" where
  "max_row sh = Max (set (1 # map (\<lambda>kv. fst (fst kv)) sh))"

text \<open>The largest column that has a cell; it bounds the search of \<open>find_slot\<close> below.\<close>

definition max_col :: "sheet \<Rightarrow> nat" where
  "max_col sh = Max (set (0 # map (\<lambda>kv. snd (fst kv)) sh))"

section \<open>Errors\<close>

text \<open>
  The exceptions that can leave the program: a list index out of range, whatever
  \<open>requests.get\<close> raises when no response arrives, and the spreadsheet library's
  \<open>IllegalCharacterError\<close> when it is asked to store a string it refuses. Nothing in the
  program catches them. Failures of the file system while the workbook is loaded or
  saved are outside the model: a workbook is either absent or loads, and saving succeeds.
\<close>

datatype error = IndexError | RequestException | IllegalCharacterError

section \<open>Reconciling a batch with the table: \<open>save_to_excel\<close>\<close>

text \<open>
  \<open>title in existing_titles\<close> followed by \<open>existing_titles.index(title)\<close>: the position of
  the first occurrence, \<open>None\<close> when there is none (the \<open>else\<close> branch of the source).
\<close>

fun index :: "'a list \<Rightarrow> 'a \<Rightarrow> nat option" where
  "index [] x = None"
| "index (y # ys) x = (if y = x then Some 0 else map_option Suc (index ys x))"

text \<open>
  The \<open>while\<close> loop of lines 135-137: from \<open>last_column\<close>, step by two columns until the
  cell is empty.
\<close>

function find_slot :: "sheet \<Rightarrow> nat \<Rightarrow> nat \<Rightarrow> nat" where
  "find_slot sh row last_column =
     (if cell_value sh row last_column \<noteq> None
      then find_slot sh row (last_column + 2)
      else last_column)"
  by pat_completeness auto

termination find_slot
proof (relation "measure (\<lambda>(sh, row, c). Suc (max_col sh) - c)")
  show "wf (measure (\<lambda>(sh, row, c). Suc (max_col sh) - c))" by simp
next
  fix sh :: sheet and row last_column :: nat
  assume "cell_value sh row last_column \<noteq> None"
  then obtain v where "map_of sh (row, last_column) = Some v"
    by (auto simp: cell_value_def split: option.splits)
  then have "((row, last_column), v) \<in> set sh" by (rule map_of_SomeD)
  then have "snd (fst ((row, last_column), v)) \<in> (\<lambda>kv. snd (fst kv)) ` set sh"
    by (rule imageI)
  then have "last_column \<in> set (0 # map (\<lambda>kv. snd (fst kv)) sh)" by simp
  then have "last_column \<le> max_col sh" unfolding max_col_def by (intro Max_ge) simp_all
  then show "((sh, row, last_column + 2), (sh, row, last_column))
      \<in> measure (\<lambda>(sh, row, c). Suc (max_col sh) - c)"
    by simp
qed

declare find_slot.simps [simp del]

text \<open>Line 123: column B of the rows 2 to \<open>max_row\<close>, read once before the loop.\<close>

definition existing_titles :: "sheet \<Rightarrow> string option list" where
  "existing_titles sh = map (\<lambda>i. cell_value sh i 2) [2..<max_row sh + 1]"

text \<open>The body of the loop of lines 125-151, for one title and its details.\<close>

definition save_row :: "string option list \<Rightarrow> string \<Rightarrow> sheet \<Rightarrow> string \<Rightarrow> string \<Rightarrow> sheet" where
  "save_row existing execution_date sh title details =
     (case index existing (Some title) of
        Some idx \<Rightarrow>
          (let row = idx + 2;
               last_column = find_slot sh row 4;
               last_details = cell_value sh row (last_column - 1)
           in if Some details \<noteq> last_details
              then set_cell (set_cell sh row last_column execution_date)
                     row (last_column + 1) details
              else sh)
      | None \<Rightarrow>
          (let new_row = max_row sh + 1
           in set_cell (set_cell (set_cell sh new_row 2 title) new_row 3 execution_date)
                new_row 4 details))"

text \<open>
  The loop \<open>for i in range(len(seminar_titles))\<close>: \<open>seminar_titles[i]\<close> always exists,
  \<open>seminar_details[i]\<close> raises \<open>IndexError\<close> when the details list is the shorter one.
\<close>

fun save_rows :: "string option list \<Rightarrow> string \<Rightarrow> sheet \<Rightarrow> string list \<Rightarrow> string list
    \<Rightarrow> error + sheet" where
  "save_rows existing execution_date sh [] ds = Inr sh"
| "save_rows existing execution_date sh (t # ts) [] = Inl IndexError"
| "save_rows existing execution_date sh (t # ts) (d # ds) =
     save_rows existing execution_date (save_row existing execution_date sh t d) ts ds"

text \<open>
  Lines 102-117: the stored workbook, or on \<open>FileNotFoundError\<close> a new one, whose sheet
  is empty but for the headers.
\<close>

definition new_workbook :: sheet where
  "new_workbook =
     set_cell (set_cell (set_cell (set_cell (set_cell (set_cell (set_cell []
       1 2 ''Seminar Title'')
       1 3 ''Date of Execution'')
       1 4 ''Seminar Details'')
       1 6 ''Date of Update'')
       1 7 ''New Seminar Details'')
       1 8 ''Date of Update 2'')
       1 9 ''New Seminar Details 2''"

text \<open>
  \<open>save_to_excel\<close>. The file is a parameter: \<open>None\<close> when \<open>seminars.xlsx\<close> does not exist,
  the stored worksheet otherwise. So is the clock: \<open>execution_date\<close> is the formatted
  \<open>datetime.now()\<close>. The result is the worksheet handed to \<open>wb.save\<close>; when the loop
  raises, \<open>wb.save\<close> is not reached and the result is the exception. A later run loads
  what an earlier run saved.
\<close>

definition load_workbook :: "sheet option \<Rightarrow> sheet" where
  "load_workbook file = (case file of Some wb \<Rightarrow> wb | None \<Rightarrow> new_workbook)"

definition save_to_excel :: "sheet option \<Rightarrow> string \<Rightarrow> string list \<Rightarrow> string list
    \<Rightarrow> error + sheet" where
  "save_to_excel file execution_date seminar_titles seminar_details =
     (let sh = load_workbook file;
          existing = existing_titles sh
      in save_rows existing execution_date sh seminar_titles seminar_details)"

subsection \<open>Writes that the library refuses\<close>

text \<open>
  In \<open>set_cell\<close>, and so in \<open>save_row\<close>, \<open>save_rows\<close> and \<open>save_to_excel\<close> above, a write
  always succeeds. The library checks every string it is given for a cell and raises
  \<open>IllegalCharacterError\<close> for some of them. The check is not part of the program, so
  it is a parameter here, \<open>illegal\<close>; \<open>illegal_characters\<close> is the check as the library
  documents it: a control character other than tab, line feed and carriage return among
  the first 32767 characters. \<open>write_cell\<close> is \<open>sheet.cell(row, column, value)\<close> with that
  check, and the three functions after it are lines 125-151, the loop and \<open>save_to_excel\<close>
  once more, every write now a \<open>write_cell\<close>: the first refused write ends the run, and
  \<open>wb.save\<close> is not reached. Where they return, they return what the functions above
  return (lemma \<open>save_to_excel_checked_returns\<close> below).
\<close>

definition illegal_characters :: "string \<Rightarrow> bool" where
  "illegal_characters v =
     (\<exists>c \<in> set (take 32767 v).
        (of_char c :: nat) \<le> 8 \<or> (of_char c :: nat) = 11 \<or> (of_char c :: nat) = 12
        \<or> (14 \<le> (of_char c :: nat) \<and> (of_char c :: nat) \<le> 31))"

definition write_cell :: "(string \<Rightarrow> bool) \<Rightarrow> sheet \<Rightarrow> nat \<Rightarrow> nat \<Rightarrow> string
    \<Rightarrow> error + sheet" where
  "write_cell illegal sh r c v =
     (if illegal v then Inl IllegalCharacterError else Inr (set_cell sh r c v))"

definition save_row_checked :: "(string \<Rightarrow> bool) \<Rightarrow> string option list \<Rightarrow> string
    \<Rightarrow> sheet \<Rightarrow> string \<Rightarrow> string \<Rightarrow> error + sheet" where
  "save_row_checked illegal existing execution_date sh title details =
     (case index existing (Some title) of
        Some idx \<Rightarrow>
          (let row = idx + 2;
               last_column = find_slot sh row 4;
               last_details = cell_value sh row (last_column - 1)
           in if Some details \<noteq> last_details
              then (case write_cell illegal sh row last_column execution_date of
                      Inl e \<Rightarrow> Inl e
                    | Inr sh1 \<Rightarrow> write_cell illegal sh1 row (last_column + 1) details)
              else Inr sh)
      | None \<Rightarrow>
          (let new_row = max_row sh + 1
           in case write_cell illegal sh new_row 2 title of
                Inl e \<Rightarrow> Inl e
              | Inr sh1 \<Rightarrow>
                  (case write_cell illegal sh1 new_row 3 execution_date of
                     Inl e \<Rightarrow> Inl e
                   | Inr sh2 \<Rightarrow> write_cell illegal sh2 new_row 4 details)))"

fun save_rows_checked :: "(string \<Rightarrow> bool) \<Rightarrow> string option list \<Rightarrow> string \<Rightarrow> sheet
    \<Rightarrow> string list \<Rightarrow> string list \<Rightarrow> error + sheet" where
  "save_rows_checked illegal existing execution_date sh [] ds = Inr sh"
| "save_rows_checked illegal existing execution_date sh (t # ts) [] = Inl IndexError"
| "save_rows_checked illegal existing execution_date sh (t # ts) (d # ds) =
     (case save_row_checked illegal existing execution_date sh t d of
        Inl e \<Rightarrow> Inl e
      | Inr sh1 \<Rightarrow> save_rows_checked illegal existing execution_date sh1 ts ds)"

definition save_to_excel_checked :: "(string \<Rightarrow> bool) \<Rightarrow> sheet option \<Rightarrow> string
    \<Rightarrow> string list \<Rightarrow> string list \<Rightarrow> error + sheet" where
  "save_to_excel_checked illegal file execution_date seminar_titles seminar_details =
     (let sh = load_workbook file;
          existing = existing_titles sh
      in save_rows_checked illegal existing execution_date sh seminar_titles seminar_details)"

section \<open>Fetching and scraping\<close>

text \<open>
  A response of \<open>requests.get\<close> is its status code and what the HTML parser finds in its
  text: the anchors matched by \<open>a[href*='/seminaria/']\<close> in document order, the text of
  the first \<open>h1\<close>, and the text of the sidebar \<open>div\<close>. For an anchor, \<open>organizer_label\<close>
  says whether the label \<open>div\<close> was found, \<open>organizer_value\<close> is the stripped text of the
  label's next sibling \<open>div\<close>, and \<open>href\<close> is the attribute.
\<close>

record anchor =
  organizer_label :: bool
  organizer_value :: "string option"
  href :: "string option"

record response =
  status_code :: int
  select_seminaria :: "anchor list"
  find_h1 :: "string option"
  find_sidebar :: "string option"

definition BASE_URL :: string where
  "BASE_URL = ''https://ekek.gr''"

definition LISTING_URL :: string where
  "LISTING_URL = ''https://ekek.gr/seminaria/''"

text \<open>The organizer's name the listing is filtered by, as its UTF-8 bytes.\<close>

definition organizer_name :: string where
  "organizer_name =
     [CHR 0xCE, CHR 0xA0, CHR 0xCE, CHR 0xB1, CHR 0xCE, CHR 0xBD, CHR 0xCE, CHR 0xB5,
      CHR 0xCF, CHR 0x80, CHR 0xCE, CHR 0xB9, CHR 0xCF, CHR 0x83, CHR 0xCF, CHR 0x84,
      CHR 0xCE, CHR 0xAE, CHR 0xCE, CHR 0xBC, CHR 0xCE, CHR 0xB9, CHR 0xCE, CHR 0xBF,
      CHR 0x20,
      CHR 0xCE, CHR 0xA0, CHR 0xCE, CHR 0xB1, CHR 0xCF, CHR 0x84, CHR 0xCF, CHR 0x81,
      CHR 0xCF, CHR 0x8E, CHR 0xCE, CHR 0xBD]"

text \<open>Python's \<open>sub in s\<close> on strings.\<close>

fun contains :: "string \<Rightarrow> string \<Rightarrow> bool" where
  "contains sub [] = (sub = [])"
| "contains sub (x # xs) = (prefix sub (x # xs) \<or> contains sub xs)"

text \<open>The body of the loop of lines 38-57: the links one anchor contributes.\<close>

definition seminar_link :: "anchor \<Rightarrow> string list" where
  "seminar_link seminar_item =
     (if organizer_label seminar_item then
        (case organizer_value seminar_item of
           Some txt \<Rightarrow>
             if contains organizer_name txt then
               (case href seminar_item of
                  Some h \<Rightarrow>
                    if h \<noteq> [] \<and> \<not> prefix ''#'' h
                    then [if \<not> prefix ''http'' h then BASE_URL @ h else h]
                    else []
                | None \<Rightarrow> [])
             else []
         | None \<Rightarrow> [])
      else [])"

definition get_seminar_links :: "(string \<Rightarrow> error + response) \<Rightarrow> string
    \<Rightarrow> error + string list" where
  "get_seminar_links requests_get listing_url =
     (case requests_get listing_url of
        Inl e \<Rightarrow> Inl e
      | Inr resp \<Rightarrow>
          if status_code resp \<noteq> 200 then Inr []
          else Inr (concat (map seminar_link (select_seminaria resp))))"

text \<open>
  \<open>scrape_seminar_page\<close> appends to the two lists it is given; the model returns them.
\<close>

definition scrape_seminar_page :: "(string \<Rightarrow> error + response) \<Rightarrow> string \<Rightarrow>
    string list \<Rightarrow> string list \<Rightarrow> error + string list \<times> string list" where
  "scrape_seminar_page requests_get seminar_url seminar_titles seminar_details =
     (case requests_get seminar_url of
        Inl e \<Rightarrow> Inl e
      | Inr resp \<Rightarrow>
          if status_code resp = 200 then
            (let seminar_name =
                   (case find_h1 resp of Some t \<Rightarrow> t | None \<Rightarrow> ''No seminar name found'');
                 titles' = seminar_titles @ [seminar_name]
             in case find_sidebar resp of
                  Some raw_text \<Rightarrow> Inr (titles', seminar_details @ [raw_text])
                | None \<Rightarrow> Inr (titles', seminar_details @ [''No details found.'']))
          else Inr (seminar_titles, seminar_details))"

text \<open>The loop of lines 174-175 over the links.\<close>

fun scrape_all :: "(string \<Rightarrow> error + response) \<Rightarrow> string list \<Rightarrow>
    string list \<Rightarrow> string list \<Rightarrow> error + string list \<times> string list" where
  "scrape_all requests_get [] seminar_titles seminar_details =
     Inr (seminar_titles, seminar_details)"
| "scrape_all requests_get (link # links) seminar_titles seminar_details =
     (case scrape_seminar_page requests_get link seminar_titles seminar_details of
        Inl e \<Rightarrow> Inl e
      | Inr (titles', details') \<Rightarrow> scrape_all requests_get links titles' details')"

text \<open>
  \<open>main\<close>. The result tells whether \<open>save_to_excel\<close> ran and what it saved, or which
  exception ended the run: one raised by a request, or by a write that the library
  refuses. The interpreter exits with status 0 when \<open>main\<close> returns and with status 1
  when an exception leaves it.
\<close>

datatype outcome = No_seminars | Saved sheet

definition main :: "(string \<Rightarrow> error + response) \<Rightarrow> (string \<Rightarrow> bool) \<Rightarrow> sheet option
    \<Rightarrow> string \<Rightarrow> error + outcome" where
  "main requests_get illegal file execution_date =
     (case get_seminar_links requests_get LISTING_URL of
        Inl e \<Rightarrow> Inl e
      | Inr seminar_links \<Rightarrow>
          if seminar_links \<noteq> [] then
            (case scrape_all requests_get seminar_links [] [] of
               Inl e \<Rightarrow> Inl e
             | Inr (seminar_titles, seminar_details) \<Rightarrow>
                 (case save_to_excel_checked illegal file execution_date
                         seminar_titles seminar_details of
                    Inl e \<Rightarrow> Inl e
                  | Inr sh \<Rightarrow> Inr (Saved sh)))
          else Inr No_seminars)"

definition exit_status :: "error + outcome \<Rightarrow> nat" where
  "exit_status r = (case r of Inl e \<Rightarrow> 1 | Inr v \<Rightarrow> 0)"

section \<open>The records of the table\<close>



text \<open>
  The layout of a row that the program has written: \<open>record_row sh r n\<close> says that row
  \<open>r\<close> holds a key, a creation version and \<open>n\<close> updates, and nothing else. A table is
  \<open>well_formed\<close> when each of its rows below the header has this layout. The new
  workbook is well formed and \<open>save_to_excel\<close> keeps a table well formed (both shown
  below), so every table that runs of the program have produced is.
\<close>

definition record_row :: "sheet \<Rightarrow> nat \<Rightarrow> nat \<Rightarrow> bool" where
  "record_row sh r n \<longleftrightarrow>
     (\<forall>c. cell_value sh r c \<noteq> None \<longleftrightarrow> c \<in> {2, 3, 4} \<or> (6 \<le> c \<and> c < 6 + 2 * n))"

definition well_formed :: "sheet \<Rightarrow> bool" where
  "well_formed sh \<longleftrightarrow> (\<forall>r. 2 \<le> r \<and> r \<le> max_row sh \<longrightarrow> (\<exists>n. record_row sh r n))"

section \<open>Example inputs\<close>

text \<open>
  Responses and worlds used to run the definitions: a response with status 404, a
  listing with one seminar of the organizer, a seminar page without a sidebar, and one
  whose sidebar text holds a form feed; a world where every request is answered 404, one
  where only the listing is reachable, one where every page is, and one where every
  page is and the seminar page is the one with the form feed.
\<close>

definition not_found :: response where
  "not_found = \<lparr>status_code = 404, select_seminaria = [], find_h1 = None, find_sidebar = None\<rparr>"

definition listing_page :: response where
  "listing_page = \<lparr>status_code = 200,
     select_seminaria = [\<lparr>organizer_label = True, organizer_value = Some organizer_name,
                           href = Some ''/seminaria/a/''\<rparr>],
     find_h1 = None, find_sidebar = None\<rparr>"

definition seminar_page :: response where
  "seminar_page = \<lparr>status_code = 200, select_seminaria = [],
     find_h1 = Some ''Seminar X'', find_sidebar = None\<rparr>"

definition form_feed_page :: response where
  "form_feed_page = \<lparr>status_code = 200, select_seminaria = [],
     find_h1 = Some ''Seminar X'', find_sidebar = Some [CHR ''a'', CHR 0x0C, CHR ''b'']\<rparr>"

definition listing_down :: "string \<Rightarrow> error + response" where
  "listing_down url = Inr not_found"


definition page_up :: "string \<Rightarrow> error + response" where
  "page_up url = (if url = LISTING_URL then Inr listing_page else Inr seminar_page)"

definition page_form_feed :: "string \<Rightarrow> error + response" where
  "page_form_feed url = (if url = LISTING_URL then Inr listing_page else Inr form_feed_page)"

text \<open>
  The table of scenario A: the first run on no file, with the one candidate
  \<open>("Seminar X", "details v1")\<close>, saves it (shown below).
\<close>

definition table_A :: sheet where
  "table_A = set_cell (set_cell (set_cell new_workbook
     2 2 ''Seminar X'') 2 3 ''2024-01-01 10:00:00'') 2 4 ''details v1''"

text \<open>
  The table of scenario C, saved by a second run with \<open>("Seminar X", "details v2")\<close>, and
  the table saved by a third run with that candidate again and a new seminar.
\<close>

definition table_C :: sheet where
  "table_C = set_cell (set_cell table_A 2 6 ''2024-01-02 10:00:00'') 2 7 ''details v2''"

definition table_D :: sheet where
  "table_D = set_cell (set_cell (set_cell table_C
     3 2 ''Seminar Y'') 3 3 ''2024-01-03 10:00:00'') 3 4 ''details w''"

section \<open>Scraping: one candidate per answered page\<close>

lemma save_rows_returns:
  "length ts \<le> length ds \<Longrightarrow> \<exists>sh'. save_rows existing now sh ts ds = Inr sh'"
  by (induction existing now sh ts ds rule: save_rows.induct) auto

lemma save_to_excel_returns:
  "length ts \<le> length ds \<Longrightarrow> \<exists>sh'. save_to_excel file now ts ds = Inr sh'"
  by (simp add: save_to_excel_def Let_def save_rows_returns)

lemma scrape_seminar_page_cases:
  assumes "requests_get url = Inr resp"
  shows "scrape_seminar_page requests_get url ts ds =
     Inr (if status_code resp = 200
          then (ts @ [case find_h1 resp of Some t \<Rightarrow> t | None \<Rightarrow> ''No seminar name found''],
                ds @ [case find_sidebar resp of Some t \<Rightarrow> t | None \<Rightarrow> ''No details found.''])
          else (ts, ds))"
  using assms by (simp add: scrape_seminar_page_def Let_def split: option.splits)

lemma scrape_seminar_page_error:
  "scrape_seminar_page requests_get url ts ds = Inl e \<Longrightarrow> requests_get url = Inl e"
  by (auto simp: scrape_seminar_page_def Let_def split: sum.splits option.splits if_splits)

lemma scrape_seminar_page_aligned:
  assumes "scrape_seminar_page requests_get url ts ds = Inr (ts', ds')"
    and "length ts = length ds"
  shows "length ts' = length ds'"
  using assms
  by (auto simp: scrape_seminar_page_def Let_def split: sum.splits option.splits if_splits)

lemma scrape_all_aligned:
  "scrape_all requests_get links ts ds = Inr (ts', ds') \<Longrightarrow> length ts = length ds
     \<Longrightarrow> length ts' = length ds'"
proof (induction links arbitrary: ts ds)
  case Nil
  then show ?case by simp
next
  case (Cons link links)
  from Cons.prems(1) obtain ts1 ds1 where
    step: "scrape_seminar_page requests_get link ts ds = Inr (ts1, ds1)"
    and rest: "scrape_all requests_get links ts1 ds1 = Inr (ts', ds')"
    by (auto split: sum.splits)
  from step Cons.prems(2) have "length ts1 = length ds1"
    by (rule scrape_seminar_page_aligned)
  with rest show ?case by (rule Cons.IH)
qed

lemma scrape_all_error:
  "scrape_all requests_get links ts ds = Inl e \<Longrightarrow> \<exists>url. requests_get url = Inl e"
proof (induction links arbitrary: ts ds)
  case Nil
  then show ?case by simp
next
  case (Cons link links)
  show ?case
  proof (cases "scrape_seminar_page requests_get link ts ds")
    case (Inl e')
    with Cons.prems have "e' = e" by simp
    with Inl show ?thesis by (blast dest: scrape_seminar_page_error)
  next
    case (Inr p)
    with Cons.prems have "scrape_all requests_get links (fst p) (snd p) = Inl e"
      by (simp split: prod.splits)
    then show ?thesis by (rule Cons.IH)
  qed
qed

lemma get_seminar_links_error:
  "get_seminar_links requests_get url = Inl e \<Longrightarrow> requests_get url = Inl e"
  by (auto simp: get_seminar_links_def split: sum.splits if_splits)

text \<open>
  Claim C10. A call of \<open>scrape_seminar_page\<close> that gets a response appends one element to
  each of the two lists when the status is 200 and nothing to either otherwise. So the
  lists that the loop of \<open>main\<close> builds from two empty lists have the same length, every
  index of \<open>seminar_titles\<close> is an index of \<open>seminar_details\<close>, and \<open>save_to_excel\<close> returns
  on them without \<open>IndexError\<close>.
\<close>

theorem scrape_keeps_lists_aligned:
  "(requests_get url = Inr resp \<longrightarrow>
      (\<exists>name text. scrape_seminar_page requests_get url ts ds =
         Inr (if status_code resp = 200 then (ts @ [name], ds @ [text]) else (ts, ds))))
   \<and> (scrape_all requests_get links [] [] = Inr (titles, details) \<longrightarrow>
        length titles = length details
        \<and> (\<forall>i < length titles. i < length details)
        \<and> (\<exists>sh. save_to_excel file now titles details = Inr sh))"
proof (intro conjI impI)
  assume "requests_get url = Inr resp"
  then show "\<exists>name text. scrape_seminar_page requests_get url ts ds =
         Inr (if status_code resp = 200 then (ts @ [name], ds @ [text]) else (ts, ds))"
    by (simp only: scrape_seminar_page_cases) blast
next
  assume run: "scrape_all requests_get links [] [] = Inr (titles, details)"
  then have len: "length titles = length details"
    by (rule scrape_all_aligned) simp
  then show "length titles = length details" .
  from len show "\<forall>i < length titles. i < length details" by simp
  from len show "\<exists>sh. save_to_excel file now titles details = Inr sh"
    by (simp add: save_to_excel_returns)
qed

text \<open>The statement of C10 at a world where every page is reachable.\<close>

theorem scrape_keeps_lists_aligned_witness:
  "page_up ''u'' = Inr seminar_page
   \<and> scrape_seminar_page page_up ''u'' [] [] = Inr ([''Seminar X''], [''No details found.''])
   \<and> scrape_all page_up [''u'', ''v''] [] [] 
       = Inr ([''Seminar X'', ''Seminar X''], [''No details found.'', ''No details found.''])
   \<and> (\<exists>sh. save_to_excel None ''2024-01-01 10:00:00'' [''Seminar X'', ''Seminar X'']
         [''No details found.'', ''No details found.''] = Inr sh)"
proof -
  have a: "page_up ''u'' = Inr seminar_page"
    by (simp add: page_up_def LISTING_URL_def)
  have b: "scrape_seminar_page page_up ''u'' [] [] = Inr ([''Seminar X''], [''No details found.''])"
    by (simp add: scrape_seminar_page_def page_up_def LISTING_URL_def seminar_page_def)
  have c: "scrape_all page_up [''u'', ''v''] [] [] 
       = Inr ([''Seminar X'', ''Seminar X''], [''No details found.'', ''No details found.''])"
    by (simp add: scrape_seminar_page_def page_up_def LISTING_URL_def seminar_page_def)
  from scrape_keeps_lists_aligned [of page_up "''u''" seminar_page "[]" "[]" "[''u'', ''v'']"
      "[''Seminar X'', ''Seminar X'']" "[''No details found.'', ''No details found.'']"
      None "''2024-01-01 10:00:00''"] a b c
  show ?thesis by simp
qed




section \<open>Writes that the library refuses\<close>

text \<open>
  A run of the checked functions that returns has returned what the functions without
  the check return, so what is shown below of \<open>save_to_excel\<close> holds of every run that
  reaches \<open>wb.save\<close>. A run that does not return was ended by a refused write, unless
  the details list is too short. Where the library refuses nothing, the two agree.
\<close>

lemma write_cell_returns:
  "write_cell illegal sh r c v = Inr sh' \<Longrightarrow> sh' = set_cell sh r c v"
  by (simp add: write_cell_def split: if_splits)

lemma write_cell_error:
  "write_cell illegal sh r c v = Inl e \<Longrightarrow> e = IllegalCharacterError \<and> illegal v"
  by (simp add: write_cell_def split: if_splits)

lemma save_row_checked_returns:
  "save_row_checked illegal existing now sh t d = Inr sh' \<Longrightarrow> save_row existing now sh t d = sh'"
  by (auto simp: save_row_checked_def save_row_def Let_def write_cell_def
      split: option.splits if_splits sum.splits)

lemma save_row_checked_error:
  "save_row_checked illegal existing now sh t d = Inl e
     \<Longrightarrow> e = IllegalCharacterError \<and> (\<exists>v. illegal v)"
  by (auto simp: save_row_checked_def Let_def write_cell_def
      split: option.splits if_splits sum.splits)

lemma save_row_checked_legal:
  "(\<And>v. \<not> illegal v) \<Longrightarrow>
     save_row_checked illegal existing now sh t d = Inr (save_row existing now sh t d)"
  by (simp add: save_row_checked_def save_row_def Let_def write_cell_def split: option.splits)

lemma save_rows_checked_returns:
  "save_rows_checked illegal existing now sh ts ds = Inr sh'
     \<Longrightarrow> save_rows existing now sh ts ds = Inr sh'"
proof (induction illegal existing now sh ts ds rule: save_rows_checked.induct)
  case (1 illegal existing now sh ds)
  then show ?case by simp
next
  case (2 illegal existing now sh t ts)
  then show ?case by simp
next
  case (3 illegal existing now sh t ts d ds)
  from "3.prems" obtain sh1 where
    step: "save_row_checked illegal existing now sh t d = Inr sh1"
    and rest: "save_rows_checked illegal existing now sh1 ts ds = Inr sh'"
    by (auto split: sum.splits)
  from step have "save_row existing now sh t d = sh1" by (rule save_row_checked_returns)
  moreover from step rest have "save_rows existing now sh1 ts ds = Inr sh'" by (rule "3.IH")
  ultimately show ?case by simp
qed

lemma save_rows_checked_error:
  "save_rows_checked illegal existing now sh ts ds = Inl e \<Longrightarrow> length ts \<le> length ds
     \<Longrightarrow> e = IllegalCharacterError \<and> (\<exists>v. illegal v)"
proof (induction illegal existing now sh ts ds rule: save_rows_checked.induct)
  case (1 illegal existing now sh ds)
  then show ?case by simp
next
  case (2 illegal existing now sh t ts)
  then show ?case by simp
next
  case (3 illegal existing now sh t ts d ds)
  show ?case
  proof (cases "save_row_checked illegal existing now sh t d")
    case (Inl e')
    with "3.prems"(1) have "e' = e" by simp
    with Inl show ?thesis by (auto dest: save_row_checked_error)
  next
    case (Inr sh1)
    with "3.prems" have "save_rows_checked illegal existing now sh1 ts ds = Inl e"
      and "length ts \<le> length ds" by simp_all
    with Inr show ?thesis by (rule "3.IH")
  qed
qed

lemma save_rows_checked_legal:
  assumes "\<And>v. \<not> illegal v"
  shows "save_rows_checked illegal existing now sh ts ds = save_rows existing now sh ts ds"
  by (induction existing now sh ts ds rule: save_rows.induct)
     (simp_all add: save_row_checked_legal [OF assms])

lemma save_to_excel_checked_returns:
  "save_to_excel_checked illegal file now ts ds = Inr sh'
     \<Longrightarrow> save_to_excel file now ts ds = Inr sh'"
  by (simp add: save_to_excel_checked_def save_to_excel_def Let_def save_rows_checked_returns)

lemma save_to_excel_checked_error:
  "save_to_excel_checked illegal file now ts ds = Inl e \<Longrightarrow> length ts \<le> length ds
     \<Longrightarrow> e = IllegalCharacterError \<and> (\<exists>v. illegal v)"
  unfolding save_to_excel_checked_def Let_def by (rule save_rows_checked_error)

lemma save_to_excel_checked_legal:
  assumes "\<And>v. \<not> illegal v"
  shows "save_to_excel_checked illegal file now ts ds = save_to_excel file now ts ds"
  by (simp add: save_to_excel_checked_def save_to_excel_def Let_def
      save_rows_checked_legal [OF assms])

section \<open>The exit status of a run\<close>

text \<open>
  Claim C7 as stated fails: with the listing answered 404, \<open>main\<close> returns and the exit
  status is 0.
\<close>

theorem listing_not_found_exits_zero:
  "listing_down LISTING_URL = Inr not_found \<and> status_code not_found \<noteq> 200
   \<and> main listing_down illegal_characters None ''2024-01-01 10:00:00'' = Inr No_seminars
   \<and> exit_status (main listing_down illegal_characters None ''2024-01-01 10:00:00'') = 0"
  by (simp add: main_def get_seminar_links_def listing_down_def not_found_def exit_status_def)

text \<open>
  Claim C7, as amended. When the listing is answered with a status other than 200, the run
  ends with no candidates, \<open>save_to_excel\<close> is not invoked, and the exit status is 0. The
  exit status is 0 exactly when \<open>main\<close> returns, and it is not 0 exactly when an exception
  leaves \<open>main\<close>, as it does when the request for the listing raises.
\<close>

theorem main_exit_status:
  "(requests_get LISTING_URL = Inr resp \<and> status_code resp \<noteq> 200 \<longrightarrow>
      main requests_get illegal file now = Inr No_seminars
      \<and> exit_status (main requests_get illegal file now) = 0)
   \<and> (exit_status (main requests_get illegal file now) = 0
        \<longleftrightarrow> (\<exists>out. main requests_get illegal file now = Inr out))
   \<and> (exit_status (main requests_get illegal file now) \<noteq> 0
        \<longleftrightarrow> (\<exists>e. main requests_get illegal file now = Inl e))
   \<and> (requests_get LISTING_URL = Inl e \<longrightarrow>
        main requests_get illegal file now = Inl e
        \<and> exit_status (main requests_get illegal file now) \<noteq> 0)"
proof (intro conjI impI)
  assume "requests_get LISTING_URL = Inr resp \<and> status_code resp \<noteq> 200"
  then show "main requests_get illegal file now = Inr No_seminars"
    by (simp add: main_def get_seminar_links_def)
  then show "exit_status (main requests_get illegal file now) = 0"
    by (simp add: exit_status_def)
next
  show "exit_status (main requests_get illegal file now) = 0
        \<longleftrightarrow> (\<exists>out. main requests_get illegal file now = Inr out)"
    by (cases "main requests_get illegal file now") (simp_all add: exit_status_def)
next
  show "exit_status (main requests_get illegal file now) \<noteq> 0
        \<longleftrightarrow> (\<exists>e. main requests_get illegal file now = Inl e)"
    by (cases "main requests_get illegal file now") (simp_all add: exit_status_def)
next
  assume "requests_get LISTING_URL = Inl e"
  then show "main requests_get illegal file now = Inl e"
    by (simp add: main_def get_seminar_links_def)
  then show "exit_status (main requests_get illegal file now) \<noteq> 0"
    by (simp add: exit_status_def)
qed

text \<open>
  The statement of C7 at a listing answered 404, at a request that raises, and at a run
  in which every request is answered with status 200 and the sidebar text holds a form
  feed: the write of the details is refused and the exit status is 1.
\<close>

theorem main_exit_status_witness:
  "listing_down LISTING_URL = Inr not_found \<and> status_code not_found \<noteq> 200
   \<and> main listing_down illegal_characters None ''2024-01-01 10:00:00'' = Inr No_seminars
   \<and> exit_status (main listing_down illegal_characters None ''2024-01-01 10:00:00'') = 0
   \<and> exit_status (main (\<lambda>url. Inl RequestException) illegal_characters None
         ''2024-01-01 10:00:00'') \<noteq> 0
   \<and> main page_form_feed illegal_characters None ''2024-01-01 10:00:00''
       = Inl IllegalCharacterError
   \<and> exit_status (main page_form_feed illegal_characters None ''2024-01-01 10:00:00'') \<noteq> 0"
proof -
  have a: "listing_down LISTING_URL = Inr not_found \<and> status_code not_found \<noteq> 200"
    by (simp add: listing_down_def not_found_def)
  have b: "(\<lambda>url. Inl RequestException :: error + response) LISTING_URL = Inl RequestException"
    by simp
  have links: "get_seminar_links page_form_feed LISTING_URL = Inr [''https://ekek.gr/seminaria/a/'']"
    by (simp add: get_seminar_links_def page_form_feed_def listing_page_def seminar_link_def
        organizer_name_def BASE_URL_def)
  have scraped: "scrape_seminar_page page_form_feed ''https://ekek.gr/seminaria/a/'' [] []
      = Inr ([''Seminar X''], [[CHR ''a'', CHR 0x0C, CHR ''b'']])"
    by (simp add: scrape_seminar_page_def page_form_feed_def LISTING_URL_def form_feed_page_def)
  have legal: "\<not> illegal_characters ''Seminar X''"
    "\<not> illegal_characters ''2024-01-01 10:00:00''"
    by (simp_all add: illegal_characters_def)
  have refused: "illegal_characters [CHR ''a'', CHR 0x0C, CHR ''b'']"
    by (simp add: illegal_characters_def)
  have saved: "save_to_excel_checked illegal_characters None ''2024-01-01 10:00:00''
      [''Seminar X''] [[CHR ''a'', CHR 0x0C, CHR ''b'']] = Inl IllegalCharacterError"
    by (simp add: save_to_excel_checked_def save_row_checked_def write_cell_def legal refused
        load_workbook_def existing_titles_def new_workbook_def set_cell_def max_row_def)
  have c: "main page_form_feed illegal_characters None ''2024-01-01 10:00:00''
      = Inl IllegalCharacterError"
    by (simp add: main_def links scraped saved)
  from main_exit_status [of listing_down not_found illegal_characters None
      "''2024-01-01 10:00:00''" RequestException] a
    main_exit_status [of "\<lambda>url. Inl RequestException" not_found illegal_characters None
      "''2024-01-01 10:00:00''" RequestException] b
    main_exit_status [of page_form_feed not_found illegal_characters None
      "''2024-01-01 10:00:00''" RequestException] c
  show ?thesis by auto
qed

text \<open>
  Within the model, an exception that leaves \<open>main\<close> was raised by a request or is the
  library's refusal of a value.
\<close>

lemma main_raises:
  assumes "main requests_get illegal file now = Inl e"
  shows "(\<exists>url. requests_get url = Inl e) \<or> (e = IllegalCharacterError \<and> (\<exists>v. illegal v))"
proof (cases "get_seminar_links requests_get LISTING_URL")
  case (Inl e')
  with assms have "e' = e" by (simp add: main_def)
  with Inl show ?thesis by (blast dest: get_seminar_links_error)
next
  case links: (Inr seminar_links)
  show ?thesis
  proof (cases "scrape_all requests_get seminar_links [] []")
    case (Inl e')
    with assms links have "e' = e" by (simp add: main_def split: if_splits)
    with Inl show ?thesis by (blast dest: scrape_all_error)
  next
    case (Inr p)
    obtain ts ds where p: "p = (ts, ds)" by (cases p)
    from Inr p have "length ts = length ds" by (auto dest: scrape_all_aligned)
    then have len: "length ts \<le> length ds" by simp
    from assms links Inr p have "save_to_excel_checked illegal file now ts ds = Inl e"
      by (simp add: main_def split: if_splits sum.splits)
    from this len have "e = IllegalCharacterError \<and> (\<exists>v. illegal v)"
      by (rule save_to_excel_checked_error)
    then show ?thesis by simp
  qed
qed

section \<open>Cells, rows and the search for the free slot\<close>

text \<open>The definitions that \<open>simp\<close> unfolds to run \<open>save_to_excel\<close> on a given table.\<close>

lemmas sheet_eval = save_to_excel_def load_workbook_def existing_titles_def save_row_def
  new_workbook_def set_cell_def max_row_def cell_value_def find_slot.simps upt_rec

lemma cell_value_set_cell:
  "cell_value (set_cell sh r c v) r' c' =
     (if r' = r \<and> c' = c then Some v else cell_value sh r' c')"
  by (simp add: cell_value_def set_cell_def update_conv')

lemma rows_set_cell:
  "(\<lambda>kv. fst (fst kv)) ` set (set_cell sh r c v) = insert r ((\<lambda>kv. fst (fst kv)) ` set sh)"
proof -
  have "(\<lambda>kv. fst (fst kv)) ` set (set_cell sh r c v) = fst ` fst ` set (set_cell sh r c v)"
    by (simp add: image_image)
  also have "\<dots> = fst ` ({(r, c)} \<union> fst ` set sh)"
    by (simp only: set_cell_def dom_update)
  also have "\<dots> = insert r ((\<lambda>kv. fst (fst kv)) ` set sh)"
    by (simp add: image_image)
  finally show ?thesis .
qed

lemma max_row_set_cell: "max_row (set_cell sh r c v) = max r (max_row sh)"
proof -
  have "max_row (set_cell sh r c v) = Max (insert r (insert 1 ((\<lambda>kv. fst (fst kv)) ` set sh)))"
    by (simp add: max_row_def rows_set_cell insert_commute)
  also have "\<dots> = max r (Max (insert 1 ((\<lambda>kv. fst (fst kv)) ` set sh)))"
    by (rule Max_insert) simp_all
  finally show ?thesis by (simp add: max_row_def)
qed

lemma max_row_ge1: "1 \<le> max_row sh"
  unfolding max_row_def by (intro Max_ge) simp_all

lemma cell_value_in_sheet:
  assumes "cell_value sh r c \<noteq> None"
  shows "\<exists>v. ((r, c), v) \<in> set sh"
proof -
  from assms obtain v where "map_of sh (r, c) = Some v"
    by (auto simp: cell_value_def split: option.splits)
  then have "((r, c), v) \<in> set sh" by (rule map_of_SomeD)
  then show ?thesis ..
qed

lemma cell_value_max_row:
  assumes "cell_value sh r c \<noteq> None"
  shows "r \<le> max_row sh"
proof -
  from cell_value_in_sheet [OF assms] obtain v where "((r, c), v) \<in> set sh" ..
  then have "fst (fst ((r, c), v)) \<in> (\<lambda>kv. fst (fst kv)) ` set sh" by (rule imageI)
  then have "r \<in> set (1 # map (\<lambda>kv. fst (fst kv)) sh)" by simp
  then show ?thesis unfolding max_row_def by (intro Max_ge) simp_all
qed


lemma cell_value_below: "max_row sh < r \<Longrightarrow> cell_value sh r c = None"
proof (rule ccontr)
  assume "max_row sh < r" and "cell_value sh r c \<noteq> None"
  then show False using cell_value_max_row [of sh r c] by simp
qed

lemma length_existing_titles: "length (existing_titles sh) + 1 = max_row sh"
proof -
  have "length (existing_titles sh) = max_row sh - 1"
    unfolding existing_titles_def by (simp del: upt_Suc)
  with max_row_ge1 [of sh] show ?thesis by arith
qed

lemma index_None_iff: "index xs x = None \<longleftrightarrow> x \<notin> set xs"
  by (induction xs) auto

lemma index_Some_less: "index xs x = Some i \<Longrightarrow> i < length xs"
  by (induction xs arbitrary: i) (auto split: if_splits)


lemma find_slot_empty: "cell_value sh r (find_slot sh r c) = None"
  by (induction sh r c rule: find_slot.induct) (subst find_slot.simps, simp)

lemma find_slot_ge: "c \<le> find_slot sh r c"
proof (induction sh r c rule: find_slot.induct)
  case (1 sh row last_column)
  show ?case
  proof (cases "cell_value sh row last_column \<noteq> None")
    case True
    with 1 have "last_column + 2 \<le> find_slot sh row (last_column + 2)" by simp
    with True show ?thesis by (subst find_slot.simps) simp
  next
    case False
    then show ?thesis by (subst find_slot.simps) simp
  qed
qed

lemma find_slot_eq:
  "(\<forall>k<n. cell_value sh r (c + 2 * k) \<noteq> None) \<Longrightarrow> cell_value sh r (c + 2 * n) = None
     \<Longrightarrow> find_slot sh r c = c + 2 * n"
proof (induction n arbitrary: c)
  case 0
  then show ?case by (subst find_slot.simps) simp
next
  case (Suc n)
  from Suc.prems(1) have "0 < Suc n \<longrightarrow> cell_value sh r (c + 2 * 0) \<noteq> None" by blast
  then have "cell_value sh r c \<noteq> None" by simp
  moreover have "find_slot sh r (c + 2) = (c + 2) + 2 * n"
  proof (rule Suc.IH)
    show "\<forall>k<n. cell_value sh r (c + 2 + 2 * k) \<noteq> None"
    proof (intro allI impI)
      fix k assume "k < n"
      then have "Suc k < Suc n" by simp
      with Suc.prems(1) have "cell_value sh r (c + 2 * Suc k) \<noteq> None" by blast
      moreover have "c + 2 * Suc k = c + 2 + 2 * k" by simp
      ultimately show "cell_value sh r (c + 2 + 2 * k) \<noteq> None" by simp
    qed
    have "c + 2 * Suc n = c + 2 + 2 * n" by simp
    with Suc.prems(2) show "cell_value sh r (c + 2 + 2 * n) = None" by simp
  qed
  ultimately show ?case by (subst find_slot.simps) simp
qed

section \<open>A record that holds only its creation version\<close>

text \<open>
  Claim C1 (not met by the code). Table A holds \<open>"details v1"\<close> for \<open>"Seminar X"\<close> in
  column 4 and nothing else. The search for the free slot stops at column 6, and the
  comparison reads column 5, which is empty: the unchanged candidate is written as a
  new version into columns 6 and 7.
\<close>

theorem unchanged_content_appends_version:
  "cell_value table_A 2 4 = Some ''details v1''
   \<and> save_to_excel (Some table_A) ''2024-01-02 10:00:00'' [''Seminar X''] [''details v1'']
       = Inr (set_cell (set_cell table_A 2 6 ''2024-01-02 10:00:00'') 2 7 ''details v1'')"
  by (simp add: sheet_eval table_A_def)

text \<open>
  Claim C2 (not met by the code). The first run on no file creates the row of table A;
  the second run with the same batch does not leave the table as it is.
\<close>

theorem second_run_changes_table:
  "save_to_excel None ''2024-01-01 10:00:00'' [''Seminar X''] [''details v1''] = Inr table_A
   \<and> save_to_excel (Some table_A) ''2024-01-01 10:00:00'' [''Seminar X''] [''details v1'']
       = Inr (set_cell (set_cell table_A 2 6 ''2024-01-01 10:00:00'') 2 7 ''details v1'')
   \<and> cell_value table_A 2 6 = None
   \<and> cell_value (set_cell (set_cell table_A 2 6 ''2024-01-01 10:00:00'') 2 7 ''details v1'') 2 6
       = Some ''2024-01-01 10:00:00''"
  by (simp add: sheet_eval table_A_def)

section \<open>Three runs\<close>

text \<open>The example tables are what three runs of \<open>save_to_excel\<close> save, one after the other.\<close>

lemma first_run_saves_table_A:
  "save_to_excel None ''2024-01-01 10:00:00'' [''Seminar X''] [''details v1''] = Inr table_A"
  by (simp add: sheet_eval table_A_def)

lemma second_run_saves_table_C:
  "save_to_excel (Some table_A) ''2024-01-02 10:00:00'' [''Seminar X''] [''details v2'']
     = Inr table_C"
  by (simp add: sheet_eval table_A_def table_C_def)

lemma third_run_saves_table_D:
  "save_to_excel (Some table_C) ''2024-01-03 10:00:00'' [''Seminar X'', ''Seminar Y'']
     [''details v2'', ''details w''] = Inr table_D"
  by (simp add: sheet_eval table_A_def table_C_def table_D_def)

section \<open>One step of the loop, and the loop\<close>

lemma save_row_existing:
  "index existing (Some t) = Some idx \<Longrightarrow>
   save_row existing now sh t d =
     (if Some d \<noteq> cell_value sh (idx + 2) (find_slot sh (idx + 2) 4 - 1)
      then set_cell (set_cell sh (idx + 2) (find_slot sh (idx + 2) 4) now)
             (idx + 2) (find_slot sh (idx + 2) 4 + 1) d
      else sh)"
  by (simp add: save_row_def Let_def)

lemma save_row_new:
  "index existing (Some t) = None \<Longrightarrow>
   save_row existing now sh t d =
     set_cell (set_cell (set_cell sh (max_row sh + 1) 2 t) (max_row sh + 1) 3 now)
       (max_row sh + 1) 4 d"
  by (simp add: save_row_def Let_def)

lemma max_row_save_row:
  assumes "length existing + 1 \<le> max_row sh"
  shows "max_row (save_row existing now sh t d) =
     max_row sh + (if index existing (Some t) = None then 1 else 0)"
proof (cases "index existing (Some t)")
  case None
  then show ?thesis by (simp add: save_row_new max_row_set_cell)
next
  case (Some idx)
  then have "idx < length existing" by (rule index_Some_less)
  with assms have "idx + 2 \<le> max_row sh" by simp
  with Some show ?thesis by (simp add: save_row_existing max_row_set_cell max_def)
qed

lemma cell_value_save_row_other:
  assumes "index existing (Some t) \<noteq> Some (r - 2) \<or> r < 2" and "r \<le> max_row sh"
  shows "cell_value (save_row existing now sh t d) r c = cell_value sh r c"
proof (cases "index existing (Some t)")
  case None
  with assms(2) show ?thesis by (simp add: save_row_new cell_value_set_cell)
next
  case (Some idx)
  with assms(1) have "idx + 2 \<noteq> r" by auto
  with Some show ?thesis by (simp add: save_row_existing cell_value_set_cell)
qed

lemma cell_value_save_row_column:
  assumes "c < 4" and "r \<le> max_row sh"
  shows "cell_value (save_row existing now sh t d) r c = cell_value sh r c"
proof (cases "index existing (Some t)")
  case None
  with assms(2) show ?thesis by (simp add: save_row_new cell_value_set_cell)
next
  case (Some idx)
  have "4 \<le> find_slot sh (idx + 2) 4" by (rule find_slot_ge)
  with assms(1) Some show ?thesis by (simp add: save_row_existing cell_value_set_cell)
qed

lemma save_rows_invariant:
  assumes "save_rows existing now sh ts ds = Inr sh'"
    and "P sh"
    and "\<And>s t d. P s \<Longrightarrow> t \<in> set ts \<Longrightarrow> P (save_row existing now s t d)"
  shows "P sh'"
  using assms
proof (induction existing now sh ts ds rule: save_rows.induct)
  case (1 existing now sh ds)
  then show ?case by simp
next
  case (2 existing now sh t ts)
  then show ?case by simp
next
  case (3 existing now sh t ts d ds)
  show ?case
  proof (rule "3.IH")
    from "3.prems"(1)
    show "save_rows existing now (save_row existing now sh t d) ts ds = Inr sh'" by simp
    from "3.prems"(2) show "P (save_row existing now sh t d)"
      by (rule "3.prems"(3)) simp
    show "P (save_row existing now s u e)" if "P s" "u \<in> set ts" for s u e
      using that by (intro "3.prems"(3)) simp_all
  qed
qed

lemma save_rows_append:
  "length ds1 = length ts1 \<Longrightarrow>
   save_rows existing now sh (ts1 @ ts2) (ds1 @ ds2) =
     (case save_rows existing now sh ts1 ds1 of
        Inl e \<Rightarrow> Inl e
      | Inr s \<Rightarrow> save_rows existing now s ts2 ds2)"
proof (induction ts1 arbitrary: ds1 sh)
  case Nil
  then show ?case by simp
next
  case (Cons t ts1)
  then obtain d ds1' where "ds1 = d # ds1'" by (cases ds1) auto
  with Cons show ?case by simp
qed

lemma max_row_save_rows:
  assumes "save_rows existing now sh ts ds = Inr sh'"
    and "length existing + 1 \<le> max_row sh"
  shows "max_row sh' = max_row sh + length (filter (\<lambda>t. index existing (Some t) = None) ts)"
  using assms
proof (induction existing now sh ts ds rule: save_rows.induct)
  case (1 existing now sh ds)
  then show ?case by simp
next
  case (2 existing now sh t ts)
  then show ?case by simp
next
  case (3 existing now sh t ts d ds)
  let ?s = "save_row existing now sh t d"
  have m: "max_row ?s = max_row sh + (if index existing (Some t) = None then 1 else 0)"
    using "3.prems"(2) by (rule max_row_save_row)
  then have "length existing + 1 \<le> max_row ?s" using "3.prems"(2) by simp
  with "3.prems"(1) have "max_row sh' =
      max_row ?s + length (filter (\<lambda>t. index existing (Some t) = None) ts)"
    by (intro "3.IH") simp_all
  with m show ?case by simp
qed

lemma max_row_save_rows_mono:
  assumes "save_rows existing now sh ts ds = Inr sh'"
    and "length existing + 1 \<le> max_row sh"
  shows "max_row sh \<le> max_row sh'"
  using max_row_save_rows [OF assms] by simp

section \<open>The keys of the table\<close>

lemma existing_titles_save_row:
  assumes "length existing + 1 \<le> max_row sh"
  shows "existing_titles (save_row existing now sh t d) =
     existing_titles sh @ (if index existing (Some t) = None then [Some t] else [])"
proof (cases "index existing (Some t)")
  case None
  let ?s = "save_row existing now sh t d"
  have m: "max_row ?s = max_row sh + 1"
    using max_row_save_row [OF assms, of now t d] None by simp
  have "2 \<le> max_row sh + 1" using max_row_ge1 [of sh] by simp
  then have "[2..<max_row sh + 1 + 1] = [2..<max_row sh + 1] @ [max_row sh + 1]"
    by (simp del: upt_Suc add: upt_Suc_append)
  then have "existing_titles ?s =
      map (\<lambda>i. cell_value ?s i 2) [2..<max_row sh + 1] @ [cell_value ?s (max_row sh + 1) 2]"
    by (simp only: existing_titles_def m map_append list.map)
  moreover have "map (\<lambda>i. cell_value ?s i 2) [2..<max_row sh + 1] =
      map (\<lambda>i. cell_value sh i 2) [2..<max_row sh + 1]"
    by (rule map_cong) (auto simp: cell_value_save_row_column)
  moreover have "cell_value ?s (max_row sh + 1) 2 = Some t"
    using None by (simp add: save_row_new cell_value_set_cell)
  ultimately show ?thesis using None by (simp add: existing_titles_def)
next
  case (Some idx)
  let ?s = "save_row existing now sh t d"
  have m: "max_row ?s = max_row sh"
    using max_row_save_row [OF assms, of now t d] Some by simp
  have "map (\<lambda>i. cell_value ?s i 2) [2..<max_row sh + 1] =
      map (\<lambda>i. cell_value sh i 2) [2..<max_row sh + 1]"
    by (rule map_cong) (auto simp: cell_value_save_row_column)
  with m Some show ?thesis by (simp add: existing_titles_def)
qed

lemma existing_titles_save_rows:
  assumes "save_rows existing now sh ts ds = Inr sh'"
    and "length existing + 1 \<le> max_row sh"
  shows "existing_titles sh' =
     existing_titles sh @ map Some (filter (\<lambda>t. index existing (Some t) = None) ts)"
  using assms
proof (induction existing now sh ts ds rule: save_rows.induct)
  case (1 existing now sh ds)
  then show ?case by simp
next
  case (2 existing now sh t ts)
  then show ?case by simp
next
  case (3 existing now sh t ts d ds)
  let ?s = "save_row existing now sh t d"
  have "length existing + 1 \<le> max_row ?s"
    using max_row_save_row [OF "3.prems"(2), of now t d] "3.prems"(2) by simp
  with "3.prems"(1) have "existing_titles sh' =
      existing_titles ?s @ map Some (filter (\<lambda>t. index existing (Some t) = None) ts)"
    by (intro "3.IH") simp_all
  then show ?case by (simp add: existing_titles_save_row [OF "3.prems"(2)])
qed

lemma save_to_excel_rows:
  "save_to_excel file now ts ds =
     save_rows (existing_titles (load_workbook file)) now (load_workbook file) ts ds"
  by (simp add: save_to_excel_def Let_def)

text \<open>
  Claim C8 as stated fails: the titles of the table are read once, before the loop, so a
  key that is new and occurs twice in the batch gets two rows.
\<close>

theorem repeated_new_key_makes_two_rows:
  "distinct (existing_titles new_workbook)
   \<and> save_to_excel (Some new_workbook) ''2024-01-01 10:00:00'' [''Seminar X'', ''Seminar X'']
        [''details v1'', ''details v2'']
      = Inr (set_cell (set_cell (set_cell table_A
               3 2 ''Seminar X'') 3 3 ''2024-01-01 10:00:00'') 3 4 ''details v2'')
   \<and> existing_titles (set_cell (set_cell (set_cell table_A
               3 2 ''Seminar X'') 3 3 ''2024-01-01 10:00:00'') 3 4 ''details v2'')
      = [Some ''Seminar X'', Some ''Seminar X'']"
  by (simp add: sheet_eval table_A_def)

text \<open>
  Claim C8, as amended. If no two rows of the loaded table share a key, and no key that
  is absent from the loaded table occurs twice in the batch, then no two rows of the
  saved table share a key. (Rows with an empty column 2 have no key.)
\<close>

theorem distinct_new_keys_keep_keys_unique:
  assumes "distinct (filter (\<lambda>k. k \<noteq> None) (existing_titles (load_workbook file)))"
    and "distinct (filter (\<lambda>t. Some t \<notin> set (existing_titles (load_workbook file)))
           seminar_titles)"
    and "save_to_excel file now seminar_titles seminar_details = Inr sh'"
  shows "distinct (filter (\<lambda>k. k \<noteq> None) (existing_titles sh'))"
proof -
  let ?sh = "load_workbook file"
  let ?ex = "existing_titles ?sh"
  let ?new = "filter (\<lambda>t. Some t \<notin> set ?ex) seminar_titles"
  from assms(3) have run: "save_rows ?ex now ?sh seminar_titles seminar_details = Inr sh'"
    by (simp add: save_to_excel_rows)
  have "length ?ex + 1 \<le> max_row ?sh" using length_existing_titles [of ?sh] by simp
  with run have "existing_titles sh' =
      ?ex @ map Some (filter (\<lambda>t. index ?ex (Some t) = None) seminar_titles)"
    by (rule existing_titles_save_rows)
  then have eq: "existing_titles sh' = ?ex @ map Some ?new"
    by (simp add: index_None_iff)
  have "filter (\<lambda>k. k \<noteq> None) (map Some ?new) = map Some ?new"
    by (induction seminar_titles) simp_all
  then have "filter (\<lambda>k. k \<noteq> None) (existing_titles sh') =
      filter (\<lambda>k. k \<noteq> None) ?ex @ map Some ?new"
    by (simp add: eq)
  moreover have "distinct (map Some ?new)"
    using assms(2) by (simp add: distinct_map)
  moreover have "set (filter (\<lambda>k. k \<noteq> None) ?ex) \<inter> set (map Some ?new) = {}"
    by auto
  ultimately show ?thesis using assms(1) by simp
qed

text \<open>The statement of C8 at table A and a batch with one known and one new key.\<close>

theorem distinct_new_keys_keep_keys_unique_witness:
  "distinct (filter (\<lambda>k. k \<noteq> None) (existing_titles (load_workbook (Some table_A))))
   \<and> distinct (filter (\<lambda>t. Some t \<notin> set (existing_titles (load_workbook (Some table_A))))
        [''Seminar X'', ''Seminar Y''])
   \<and> save_to_excel (Some table_A) ''2024-01-02 10:00:00'' [''Seminar X'', ''Seminar Y'']
        [''details v1'', ''details w'']
      = Inr (set_cell (set_cell (set_cell (set_cell (set_cell table_A
           2 6 ''2024-01-02 10:00:00'') 2 7 ''details v1'')
           3 2 ''Seminar Y'') 3 3 ''2024-01-02 10:00:00'') 3 4 ''details w'')
   \<and> distinct (filter (\<lambda>k. k \<noteq> None) (existing_titles
        (set_cell (set_cell (set_cell (set_cell (set_cell table_A
           2 6 ''2024-01-02 10:00:00'') 2 7 ''details v1'')
           3 2 ''Seminar Y'') 3 3 ''2024-01-02 10:00:00'') 3 4 ''details w'')))"
proof -
  have a: "distinct (filter (\<lambda>k. k \<noteq> None) (existing_titles (load_workbook (Some table_A))))"
    by (simp add: sheet_eval table_A_def)
  have b: "distinct (filter (\<lambda>t. Some t \<notin> set (existing_titles (load_workbook (Some table_A))))
        [''Seminar X'', ''Seminar Y''])"
    by (simp add: sheet_eval table_A_def)
  have c: "save_to_excel (Some table_A) ''2024-01-02 10:00:00'' [''Seminar X'', ''Seminar Y'']
        [''details v1'', ''details w'']
      = Inr (set_cell (set_cell (set_cell (set_cell (set_cell table_A
           2 6 ''2024-01-02 10:00:00'') 2 7 ''details v1'')
           3 2 ''Seminar Y'') 3 3 ''2024-01-02 10:00:00'') 3 4 ''details w'')"
    by (simp add: sheet_eval table_A_def)
  from distinct_new_keys_keep_keys_unique [OF a b c] a b c show ?thesis by simp
qed

section \<open>A new key gets a new row\<close>

lemma cell_value_save_row_created:
  assumes "length existing + 1 < r" and "r \<le> max_row sh"
  shows "cell_value (save_row existing now sh t d) r c = cell_value sh r c"
proof (rule cell_value_save_row_other)
  show "index existing (Some t) \<noteq> Some (r - 2) \<or> r < 2"
  proof (rule disjI1, rule notI)
    assume "index existing (Some t) = Some (r - 2)"
    then have "r - 2 < length existing" by (rule index_Some_less)
    with assms(1) show False by simp
  qed
  show "r \<le> max_row sh" by (rule assms(2))
qed

lemma cell_value_save_rows_created:
  assumes "save_rows existing now sh ts ds = Inr sh'"
    and "length existing + 1 \<le> max_row sh"
    and "length existing + 1 < r" and "r \<le> max_row sh"
  shows "cell_value sh' r c = cell_value sh r c"
proof -
  let ?P = "\<lambda>s. length existing + 1 \<le> max_row s \<and> r \<le> max_row s
                \<and> cell_value s r c = cell_value sh r c"
  have "?P sh'"
  proof (rule save_rows_invariant [OF assms(1), of ?P])
    show "?P sh" using assms by simp
    show "?P (save_row existing now s t d)" if "?P s" for s t d
    proof -
      from that have b: "length existing + 1 \<le> max_row s" and r: "r \<le> max_row s"
        and v: "cell_value s r c = cell_value sh r c" by simp_all
      have m: "max_row s \<le> max_row (save_row existing now s t d)"
        by (simp add: max_row_save_row [OF b])
      have "cell_value (save_row existing now s t d) r c = cell_value s r c"
        using assms(3) r by (rule cell_value_save_row_created)
      with b r v m show ?thesis by simp
    qed
  qed
  then show ?thesis by simp
qed

text \<open>
  Claim C5. A candidate whose key is not in the loaded table gets one new row below all
  rows of the table: the row after the last one, counting the rows of the new keys before
  it in the batch. The row was empty, and in the saved table it holds the key in column
  2, the date of the run in column 3, the details in column 4 and nothing else. The
  table grows by exactly one row for each candidate with a new key.
\<close>

theorem new_key_appends_one_row:
  assumes "seminar_titles = before @ title # after"
    and "seminar_details = ds_before @ details # ds_after"
    and "length ds_before = length before"
    and "Some title \<notin> set (existing_titles (load_workbook file))"
    and "save_to_excel file now seminar_titles seminar_details = Inr sh'"
  shows "let sh = load_workbook file;
             new = (\<lambda>t. Some t \<notin> set (existing_titles sh));
             row = max_row sh + 1 + length (filter new before)
         in max_row sh < row \<and> row \<le> max_row sh'
            \<and> max_row sh' = max_row sh + length (filter new seminar_titles)
            \<and> (\<forall>c. cell_value sh row c = None)
            \<and> cell_value sh' row 2 = Some title
            \<and> cell_value sh' row 3 = Some now
            \<and> cell_value sh' row 4 = Some details
            \<and> (\<forall>c. c \<notin> {2, 3, 4} \<longrightarrow> cell_value sh' row c = None)"
proof -
  let ?sh = "load_workbook file"
  let ?ex = "existing_titles ?sh"
  let ?new = "\<lambda>t. Some t \<notin> set ?ex"
  let ?row = "max_row ?sh + 1 + length (filter ?new before)"
  have new: "(\<lambda>t. index ?ex (Some t) = None) = ?new"
    by (simp add: index_None_iff)
  have ex: "length ?ex + 1 = max_row ?sh" by (rule length_existing_titles)
  from assms(5) have run: "save_rows ?ex now ?sh seminar_titles seminar_details = Inr sh'"
    by (simp add: save_to_excel_rows)
  have "length before \<le> length ds_before" using assms(3) by simp
  then have "\<exists>s1. save_rows ?ex now ?sh before ds_before = Inr s1"
    by (rule save_rows_returns)
  then obtain s1 where s1: "save_rows ?ex now ?sh before ds_before = Inr s1" ..
  let ?s2 = "save_row ?ex now s1 title details"
  from run s1 have rest: "save_rows ?ex now ?s2 after ds_after = Inr sh'"
    by (simp add: assms(1,2) save_rows_append [OF assms(3)])
  have m1: "max_row s1 = max_row ?sh + length (filter ?new before)"
    using max_row_save_rows [OF s1] ex by (simp add: new)
  then have b1: "length ?ex + 1 \<le> max_row s1" using ex by simp
  have idx: "index ?ex (Some title) = None" using assms(4) by (simp add: index_None_iff)
  have s2: "?s2 = set_cell (set_cell (set_cell s1 ?row 2 title) ?row 3 now) ?row 4 details"
    using idx m1 by (simp add: save_row_new)
  have m2: "max_row ?s2 = ?row"
    using max_row_save_row [OF b1, of now title details] idx m1 by simp
  then have b2: "length ?ex + 1 \<le> max_row ?s2" using ex by simp
  have m': "max_row sh' = ?row + length (filter ?new after)"
    using max_row_save_rows [OF rest b2] m2 by (simp add: new)
  have keep: "cell_value sh' ?row c = cell_value ?s2 ?row c" for c
    using rest b2 by (rule cell_value_save_rows_created) (simp_all add: ex [symmetric] m2)
  have empty1: "cell_value s1 ?row c = None" for c
    by (rule cell_value_below) (simp add: m1)
  have empty0: "cell_value ?sh ?row c = None" for c
    by (rule cell_value_below) simp
  have "max_row ?sh < ?row" by simp
  moreover have "?row \<le> max_row sh'" using m' by simp
  moreover have "max_row sh' = max_row ?sh + length (filter ?new seminar_titles)"
    using m' assms(4) by (simp add: assms(1))
  moreover have "\<forall>c. cell_value ?sh ?row c = None" using empty0 by simp
  moreover have "cell_value sh' ?row 2 = Some title"
    by (simp only: keep) (simp add: s2 cell_value_set_cell)
  moreover have "cell_value sh' ?row 3 = Some now"
    by (simp only: keep) (simp add: s2 cell_value_set_cell)
  moreover have "cell_value sh' ?row 4 = Some details"
    by (simp only: keep) (simp add: s2 cell_value_set_cell)
  moreover have "\<forall>c. c \<notin> {2, 3, 4} \<longrightarrow> cell_value sh' ?row c = None"
  proof (intro allI impI)
    fix c :: nat
    assume "c \<notin> {2, 3, 4}"
    then have "cell_value ?s2 ?row c = cell_value s1 ?row c"
      by (simp add: s2 cell_value_set_cell)
    also have "\<dots> = None" by (rule empty1)
    finally show "cell_value sh' ?row c = None" by (simp only: keep)
  qed
  ultimately show ?thesis by (simp only: Let_def) blast
qed

text \<open>The statement of C5 at the third run: "Seminar Y" gets row 3.\<close>

theorem new_key_appends_one_row_witness:
  "Some ''Seminar Y'' \<notin> set (existing_titles (load_workbook (Some table_C)))
   \<and> save_to_excel (Some table_C) ''2024-01-03 10:00:00'' [''Seminar X'', ''Seminar Y'']
        [''details v2'', ''details w''] = Inr table_D
   \<and> max_row table_C = 2 \<and> max_row table_D = 3
   \<and> cell_value table_C 3 2 = None
   \<and> cell_value table_D 3 2 = Some ''Seminar Y''
   \<and> cell_value table_D 3 3 = Some ''2024-01-03 10:00:00''
   \<and> cell_value table_D 3 4 = Some ''details w''
   \<and> cell_value table_D 3 5 = None"
proof -
  have a: "Some ''Seminar Y'' \<notin> set (existing_titles (load_workbook (Some table_C)))"
    by (simp add: sheet_eval table_A_def table_C_def)
  have m: "max_row (load_workbook (Some table_C)) = 2"
    by (simp add: sheet_eval table_A_def table_C_def)
  have x: "Some ''Seminar X'' \<in> set (existing_titles (load_workbook (Some table_C)))"
    by (simp add: sheet_eval table_A_def table_C_def)
  have l: "length [''details v2''] = length [''Seminar X'']" by simp
  have t: "[''Seminar X'', ''Seminar Y''] = [''Seminar X''] @ ''Seminar Y'' # []" by simp
  have d: "[''details v2'', ''details w''] = [''details v2''] @ ''details w'' # []" by simp
  from new_key_appends_one_row [OF t d l a third_run_saves_table_D]
  have "max_row table_D = 3 \<and> (\<forall>c. cell_value (load_workbook (Some table_C)) 3 c = None)
      \<and> cell_value table_D 3 2 = Some ''Seminar Y''
      \<and> cell_value table_D 3 3 = Some ''2024-01-03 10:00:00''
      \<and> cell_value table_D 3 4 = Some ''details w''
      \<and> (\<forall>c. c \<notin> {2, 3, 4} \<longrightarrow> cell_value table_D 3 c = None)"
    by (simp add: Let_def m x a)
  then have "max_row table_D = 3" "cell_value table_C 3 2 = None"
    "cell_value table_D 3 2 = Some ''Seminar Y''"
    "cell_value table_D 3 3 = Some ''2024-01-03 10:00:00''"
    "cell_value table_D 3 4 = Some ''details w''"
    "cell_value table_D 3 5 = None"
    by (simp_all add: load_workbook_def)
  with a m third_run_saves_table_D show ?thesis by (simp add: load_workbook_def)
qed

section \<open>The layout is kept, and so is every stored cell\<close>

lemma record_row_cong:
  "(\<And>c. cell_value s' r c = cell_value s r c) \<Longrightarrow> record_row s' r n = record_row s r n"
  by (simp add: record_row_def)

lemma record_row_empty_slot:
  assumes "record_row sh r n"
  shows "cell_value sh r 5 = None" and "cell_value sh r (6 + 2 * n) = None"
    and "cell_value sh r (7 + 2 * n) = None"
proof -
  from assms have iff: "cell_value sh r c \<noteq> None \<longleftrightarrow> c \<in> {2, 3, 4} \<or> (6 \<le> c \<and> c < 6 + 2 * n)"
    for c by (simp add: record_row_def)
  from iff [of 5] show "cell_value sh r 5 = None" by simp
  from iff [of "6 + 2 * n"] show "cell_value sh r (6 + 2 * n) = None" by simp
  from iff [of "7 + 2 * n"] show "cell_value sh r (7 + 2 * n) = None" by simp
qed


lemma find_slot_record_row:
  assumes "record_row sh r n"
  shows "find_slot sh r 4 = 6 + 2 * n"
proof -
  from assms have iff: "cell_value sh r c \<noteq> None \<longleftrightarrow> c \<in> {2, 3, 4} \<or> (6 \<le> c \<and> c < 6 + 2 * n)"
    for c by (simp add: record_row_def)
  have "find_slot sh r 4 = 4 + 2 * Suc n"
  proof (rule find_slot_eq)
    show "\<forall>k<Suc n. cell_value sh r (4 + 2 * k) \<noteq> None"
    proof (intro allI impI)
      fix k assume "k < Suc n"
      then have "4 + 2 * k \<in> {2, 3, 4} \<or> (6 \<le> 4 + 2 * k \<and> 4 + 2 * k < 6 + 2 * n)"
        by (cases k) simp_all
      then show "cell_value sh r (4 + 2 * k) \<noteq> None" by (simp only: iff)
    qed
    from iff [of "4 + 2 * Suc n"] show "cell_value sh r (4 + 2 * Suc n) = None" by simp
  qed
  then show ?thesis by simp
qed

lemma record_row_append:
  assumes "record_row sh r n"
  shows "record_row (set_cell (set_cell sh r (6 + 2 * n) v) r (7 + 2 * n) w) r (Suc n)"
proof -
  from assms have iff: "cell_value sh r c \<noteq> None \<longleftrightarrow> c \<in> {2, 3, 4} \<or> (6 \<le> c \<and> c < 6 + 2 * n)"
    for c by (simp add: record_row_def)
  show ?thesis
    unfolding record_row_def
  proof (intro allI)
    fix c
    consider "c = 6 + 2 * n" | "c = 7 + 2 * n" | "c \<noteq> 6 + 2 * n" "c \<noteq> 7 + 2 * n" by blast
    then show "cell_value (set_cell (set_cell sh r (6 + 2 * n) v) r (7 + 2 * n) w) r c \<noteq> None
        \<longleftrightarrow> c \<in> {2, 3, 4} \<or> (6 \<le> c \<and> c < 6 + 2 * Suc n)"
    proof cases
      case 1
      then show ?thesis by (simp add: cell_value_set_cell)
    next
      case 2
      then show ?thesis by (simp add: cell_value_set_cell)
    next
      case 3
      then have "cell_value (set_cell (set_cell sh r (6 + 2 * n) v) r (7 + 2 * n) w) r c
          = cell_value sh r c" by (simp add: cell_value_set_cell)
      moreover from 3 have "(6 \<le> c \<and> c < 6 + 2 * Suc n) = (6 \<le> c \<and> c < 6 + 2 * n)" by auto
      ultimately show ?thesis by (simp only: iff)
    qed
  qed
qed

lemma record_row_created:
  assumes "\<And>c. cell_value sh r c = None"
  shows "record_row (set_cell (set_cell (set_cell sh r 2 t) r 3 v) r 4 w) r 0"
  unfolding record_row_def by (auto simp: cell_value_set_cell assms)

text \<open>What \<open>save_row\<close> does to the row of an existing key when the row has the layout.\<close>

lemma save_row_record_row:
  assumes "index existing (Some t) = Some idx" and "record_row sh (idx + 2) n"
  shows "save_row existing now sh t d =
     (if Some d \<noteq> cell_value sh (idx + 2) (5 + 2 * n)
      then set_cell (set_cell sh (idx + 2) (6 + 2 * n) now) (idx + 2) (7 + 2 * n) d
      else sh)"
proof -
  have f: "find_slot sh (idx + 2) 4 = 6 + 2 * n"
    using assms(2) by (rule find_slot_record_row)
  have "6 + 2 * n - 1 = 5 + 2 * n" and "6 + 2 * n + 1 = 7 + 2 * n" by simp_all
  then show ?thesis unfolding save_row_existing [OF assms(1)] f by (simp only:)
qed

lemma well_formed_save_row:
  assumes "well_formed sh" and "length existing + 1 \<le> max_row sh"
  shows "well_formed (save_row existing now sh t d)"
proof (cases "index existing (Some t)")
  case None
  let ?m = "max_row sh + 1"
  let ?s = "set_cell (set_cell (set_cell sh ?m 2 t) ?m 3 now) ?m 4 d"
  have s: "save_row existing now sh t d = ?s" using None by (rule save_row_new)
  have m: "max_row ?s = ?m" by (simp add: max_row_set_cell)
  have "\<exists>n. record_row ?s r n" if "2 \<le> r" "r \<le> max_row ?s" for r
  proof (cases "r = ?m")
    case True
    have "record_row ?s ?m 0"
      by (rule record_row_created) (simp add: cell_value_below)
    with True show ?thesis by blast
  next
    case False
    with that m have "r \<le> max_row sh" by simp
    with assms(1) that(1) have "\<exists>n. record_row sh r n"
      unfolding well_formed_def by blast
    then obtain n where "record_row sh r n" ..
    moreover have "record_row ?s r n = record_row sh r n"
      using False by (intro record_row_cong) (simp add: cell_value_set_cell)
    ultimately show ?thesis by blast
  qed
  then show ?thesis by (simp only: s well_formed_def) blast
next
  case (Some idx)
  then have "idx < length existing" by (rule index_Some_less)
  with assms(2) have row: "2 \<le> idx + 2" "idx + 2 \<le> max_row sh" by simp_all
  with assms(1) have "\<exists>n. record_row sh (idx + 2) n"
    unfolding well_formed_def by blast
  then obtain n where n: "record_row sh (idx + 2) n" ..
  show ?thesis
  proof (cases "Some d \<noteq> cell_value sh (idx + 2) (5 + 2 * n)")
    case False
    then show ?thesis using assms(1) by (simp add: save_row_record_row [OF Some n])
  next
    case True
    let ?s = "set_cell (set_cell sh (idx + 2) (6 + 2 * n) now) (idx + 2) (7 + 2 * n) d"
    have s: "save_row existing now sh t d = ?s"
      using True by (simp add: save_row_record_row [OF Some n])
    have m: "max_row ?s = max_row sh" using row by (simp add: max_row_set_cell max_def)
    have "\<exists>k. record_row ?s r k" if "2 \<le> r" "r \<le> max_row ?s" for r
    proof (cases "r = idx + 2")
      case True
      have "record_row ?s (idx + 2) (Suc n)" using n by (rule record_row_append)
      with True show ?thesis by blast
    next
      case False
      from that m assms(1) have "\<exists>k. record_row sh r k"
        unfolding well_formed_def by simp
      then obtain k where "record_row sh r k" ..
      moreover have "record_row ?s r k = record_row sh r k"
        using False by (intro record_row_cong) (simp add: cell_value_set_cell)
      ultimately show ?thesis by blast
    qed
    then show ?thesis by (simp only: s well_formed_def) blast
  qed
qed

lemma cell_value_save_row_kept:
  assumes "well_formed sh" and "length existing + 1 \<le> max_row sh"
    and "cell_value sh r c = Some v"
  shows "cell_value (save_row existing now sh t d) r c = Some v"
proof (cases "index existing (Some t)")
  case None
  have "r \<noteq> max_row sh + 1"
  proof
    assume "r = max_row sh + 1"
    then have "cell_value sh r c = None" by (intro cell_value_below) simp
    with assms(3) show False by simp
  qed
  then show ?thesis using assms(3) by (simp add: save_row_new [OF None] cell_value_set_cell)
next
  case (Some idx)
  then have "idx < length existing" by (rule index_Some_less)
  with assms(2) have row: "2 \<le> idx + 2" "idx + 2 \<le> max_row sh" by simp_all
  with assms(1) have "\<exists>n. record_row sh (idx + 2) n"
    unfolding well_formed_def by blast
  then obtain n where n: "record_row sh (idx + 2) n" ..
  have "\<not> (r = idx + 2 \<and> c = 6 + 2 * n)" "\<not> (r = idx + 2 \<and> c = 7 + 2 * n)"
    using record_row_empty_slot(2,3) [OF n] assms(3) by auto
  then show ?thesis
    using assms(3) by (auto simp: save_row_record_row [OF Some n] cell_value_set_cell)
qed

lemma well_formed_new_workbook: "well_formed new_workbook"
proof -
  have "max_row [] = 1" by (simp add: max_row_def)
  then have "max_row new_workbook = 1"
    by (simp add: new_workbook_def max_row_set_cell)
  then show ?thesis by (auto simp: well_formed_def)
qed

lemma well_formed_load_workbook: "well_formed (load_workbook None)"
  by (simp add: load_workbook_def well_formed_new_workbook)

lemma well_formed_save_rows:
  assumes "save_rows existing now sh ts ds = Inr sh'"
    and "well_formed sh" and "length existing + 1 \<le> max_row sh"
  shows "well_formed sh'"
proof -
  let ?P = "\<lambda>s. well_formed s \<and> length existing + 1 \<le> max_row s"
  have "?P sh'"
  proof (rule save_rows_invariant [OF assms(1), of ?P])
    show "?P sh" using assms by simp
    show "?P (save_row existing now s t d)" if "?P s" for s t d
      using that by (simp add: well_formed_save_row max_row_save_row)
  qed
  then show ?thesis by simp
qed

lemma well_formed_save_to_excel:
  assumes "save_to_excel file now ts ds = Inr sh'" and "well_formed (load_workbook file)"
  shows "well_formed sh'"
proof (rule well_formed_save_rows)
  from assms(1)
  show "save_rows (existing_titles (load_workbook file)) now (load_workbook file) ts ds = Inr sh'"
    by (simp add: save_to_excel_rows)
  show "well_formed (load_workbook file)" by (rule assms(2))
  show "length (existing_titles (load_workbook file)) + 1 \<le> max_row (load_workbook file)"
    using length_existing_titles [of "load_workbook file"] by simp
qed

lemma well_formed_table_A: "well_formed table_A"
  using first_run_saves_table_A well_formed_load_workbook by (rule well_formed_save_to_excel)


text \<open>
  Claim C9. On a table in the layout the program writes, \<open>save_to_excel\<close> only appends:
  every cell that holds a value before the call holds the same value in the saved
  table, whatever the batch. No row is removed, and the saved table is in that layout
  again.
\<close>

theorem stored_cells_are_kept:
  assumes "well_formed sh"
    and "save_to_excel (Some sh) now seminar_titles seminar_details = Inr sh'"
    and "cell_value sh r c = Some v"
  shows "cell_value sh' r c = Some v \<and> max_row sh \<le> max_row sh' \<and> well_formed sh'"
proof -
  let ?ex = "existing_titles sh"
  from assms(2) have run: "save_rows ?ex now sh seminar_titles seminar_details = Inr sh'"
    by (simp add: save_to_excel_rows load_workbook_def)
  have b: "length ?ex + 1 \<le> max_row sh" using length_existing_titles [of sh] by simp
  let ?P = "\<lambda>s. well_formed s \<and> length ?ex + 1 \<le> max_row s \<and> cell_value s r c = Some v"
  have "?P sh'"
  proof (rule save_rows_invariant [OF run, of ?P])
    show "?P sh" using assms(1,3) b by simp
    show "?P (save_row ?ex now s t d)" if "?P s" for s t d
      using that by (simp add: well_formed_save_row max_row_save_row cell_value_save_row_kept)
  qed
  moreover have "max_row sh \<le> max_row sh'" using run b by (rule max_row_save_rows_mono)
  ultimately show ?thesis by simp
qed

text \<open>The statement of C9 at the second run.\<close>

theorem stored_cells_are_kept_witness:
  "well_formed table_A
   \<and> save_to_excel (Some table_A) ''2024-01-02 10:00:00'' [''Seminar X''] [''details v2'']
       = Inr table_C
   \<and> cell_value table_A 2 4 = Some ''details v1''
   \<and> cell_value table_C 2 4 = Some ''details v1''
   \<and> max_row table_A \<le> max_row table_C
   \<and> well_formed table_C"
proof -
  have c: "cell_value table_A 2 4 = Some ''details v1''"
    by (simp add: sheet_eval table_A_def)
  from stored_cells_are_kept [OF well_formed_table_A second_run_saves_table_C c]
    well_formed_table_A second_run_saves_table_C c
  show ?thesis by simp
qed

section \<open>Changed content appends one version\<close>












section \<open>The columns of the update pairs\<close>

text \<open>
  Claim C3 as stated fails: the first update of the record of table A leaves column 5
  empty and is written into columns 6 and 7.
\<close>

theorem first_update_skips_column_5:
  "save_to_excel (Some table_A) ''2024-01-02 10:00:00'' [''Seminar X''] [''details v2'']
     = Inr (set_cell (set_cell table_A 2 6 ''2024-01-02 10:00:00'') 2 7 ''details v2'')
   \<and> cell_value (set_cell (set_cell table_A 2 6 ''2024-01-02 10:00:00'') 2 7 ''details v2'') 2 5
       = None
   \<and> cell_value (set_cell (set_cell table_A 2 6 ''2024-01-02 10:00:00'') 2 7 ''details v2'') 2 6
       \<noteq> Some ''details v2''"
  by (simp add: sheet_eval table_A_def)

text \<open>
  Claim C3, as amended. The first update pair of a record is in columns 6 and 7 and the
  second pair in columns 8 and 9; column 5 stays empty. Appending the first update to a
  record whose details changed writes exactly columns 6 and 7 of its row, appending the
  second writes exactly columns 8 and 9. The headers of a new workbook name the same
  columns.
\<close>

theorem update_pairs_start_at_column_6:
  "(index (existing_titles sh) (Some title) = Some idx
      \<and> cell_value sh (idx + 2) 4 \<noteq> None \<and> cell_value sh (idx + 2) 5 = None
      \<and> cell_value sh (idx + 2) 6 = None
      \<and> Some details \<noteq> cell_value sh (idx + 2) 4
    \<longrightarrow> save_to_excel (Some sh) now [title] [details]
          = Inr (set_cell (set_cell sh (idx + 2) 6 now) (idx + 2) 7 details))
   \<and> (index (existing_titles sh) (Some title) = Some idx
      \<and> cell_value sh (idx + 2) 4 \<noteq> None \<and> cell_value sh (idx + 2) 6 \<noteq> None
      \<and> cell_value sh (idx + 2) 8 = None
      \<and> Some details \<noteq> cell_value sh (idx + 2) 7
    \<longrightarrow> save_to_excel (Some sh) now [title] [details]
          = Inr (set_cell (set_cell sh (idx + 2) 8 now) (idx + 2) 9 details))
   \<and> cell_value new_workbook 1 5 = None
   \<and> cell_value new_workbook 1 6 = Some ''Date of Update''
   \<and> cell_value new_workbook 1 7 = Some ''New Seminar Details''
   \<and> cell_value new_workbook 1 8 = Some ''Date of Update 2''
   \<and> cell_value new_workbook 1 9 = Some ''New Seminar Details 2''"
proof (intro conjI impI)
  assume h: "index (existing_titles sh) (Some title) = Some idx
      \<and> cell_value sh (idx + 2) 4 \<noteq> None \<and> cell_value sh (idx + 2) 5 = None
      \<and> cell_value sh (idx + 2) 6 = None
      \<and> Some details \<noteq> cell_value sh (idx + 2) 4"
  have "find_slot sh (idx + 2) 4 = 4 + 2 * 1"
  proof (rule find_slot_eq)
    show "\<forall>k<1. cell_value sh (idx + 2) (4 + 2 * k) \<noteq> None" using h by simp
    show "cell_value sh (idx + 2) (4 + 2 * 1) = None" using h by simp
  qed
  then have f: "find_slot sh (idx + 2) 4 = 6" by simp
  from h have i: "index (existing_titles sh) (Some title) = Some idx" by simp
  have "save_row (existing_titles sh) now sh title details =
      set_cell (set_cell sh (idx + 2) 6 now) (idx + 2) 7 details"
    unfolding save_row_existing [OF i] f using h by simp
  then show "save_to_excel (Some sh) now [title] [details]
          = Inr (set_cell (set_cell sh (idx + 2) 6 now) (idx + 2) 7 details)"
    by (simp add: save_to_excel_rows load_workbook_def)
next
  assume h: "index (existing_titles sh) (Some title) = Some idx
      \<and> cell_value sh (idx + 2) 4 \<noteq> None \<and> cell_value sh (idx + 2) 6 \<noteq> None
      \<and> cell_value sh (idx + 2) 8 = None
      \<and> Some details \<noteq> cell_value sh (idx + 2) 7"
  have "find_slot sh (idx + 2) 4 = 4 + 2 * 2"
  proof (rule find_slot_eq)
    show "\<forall>k<2. cell_value sh (idx + 2) (4 + 2 * k) \<noteq> None"
    proof (intro allI impI)
      fix k :: nat assume "k < 2"
      then have "k = 0 \<or> k = 1" by auto
      then show "cell_value sh (idx + 2) (4 + 2 * k) \<noteq> None" using h by auto
    qed
    show "cell_value sh (idx + 2) (4 + 2 * 2) = None" using h by simp
  qed
  then have f: "find_slot sh (idx + 2) 4 = 8" by simp
  from h have i: "index (existing_titles sh) (Some title) = Some idx" by simp
  have "save_row (existing_titles sh) now sh title details =
      set_cell (set_cell sh (idx + 2) 8 now) (idx + 2) 9 details"
    unfolding save_row_existing [OF i] f using h by simp
  then show "save_to_excel (Some sh) now [title] [details]
          = Inr (set_cell (set_cell sh (idx + 2) 8 now) (idx + 2) 9 details)"
    by (simp add: save_to_excel_rows load_workbook_def)
qed (simp_all add: sheet_eval)

text \<open>The statement of C3 at table A (first update) and table C (second update).\<close>

theorem update_pairs_start_at_column_6_witness:
  "index (existing_titles table_A) (Some ''Seminar X'') = Some 0
   \<and> cell_value table_A 2 4 = Some ''details v1'' \<and> cell_value table_A 2 5 = None
   \<and> cell_value table_A 2 6 = None
   \<and> save_to_excel (Some table_A) ''2024-01-02 10:00:00'' [''Seminar X''] [''details v2'']
       = Inr (set_cell (set_cell table_A 2 6 ''2024-01-02 10:00:00'') 2 7 ''details v2'')
   \<and> index (existing_titles table_C) (Some ''Seminar X'') = Some 0
   \<and> cell_value table_C 2 6 = Some ''2024-01-02 10:00:00''
   \<and> cell_value table_C 2 7 = Some ''details v2'' \<and> cell_value table_C 2 8 = None
   \<and> save_to_excel (Some table_C) ''2024-01-03 10:00:00'' [''Seminar X''] [''details v3'']
       = Inr (set_cell (set_cell table_C 2 8 ''2024-01-03 10:00:00'') 2 9 ''details v3'')"
proof -
  have e: "(0::nat) + 2 = 2" by simp
  have a: "index (existing_titles table_A) (Some ''Seminar X'') = Some 0
      \<and> cell_value table_A 2 4 = Some ''details v1''
      \<and> cell_value table_A 2 5 = None \<and> cell_value table_A 2 6 = None"
    by (simp add: sheet_eval table_A_def)
  have c: "index (existing_titles table_C) (Some ''Seminar X'') = Some 0
      \<and> cell_value table_C 2 4 = Some ''details v1''
      \<and> cell_value table_C 2 6 = Some ''2024-01-02 10:00:00''
      \<and> cell_value table_C 2 7 = Some ''details v2''
      \<and> cell_value table_C 2 8 = None"
    by (simp add: sheet_eval table_A_def table_C_def)
  from update_pairs_start_at_column_6 [of table_A "''Seminar X''" 0 "''details v2''"
      "''2024-01-02 10:00:00''", unfolded e] a
  have 1: "save_to_excel (Some table_A) ''2024-01-02 10:00:00'' [''Seminar X''] [''details v2'']
       = Inr (set_cell (set_cell table_A 2 6 ''2024-01-02 10:00:00'') 2 7 ''details v2'')"
    by simp
  from update_pairs_start_at_column_6 [of table_C "''Seminar X''" 0 "''details v3''"
      "''2024-01-03 10:00:00''", unfolded e] c
  have 2: "save_to_excel (Some table_C) ''2024-01-03 10:00:00'' [''Seminar X''] [''details v3'']
       = Inr (set_cell (set_cell table_C 2 8 ''2024-01-03 10:00:00'') 2 9 ''details v3'')"
    by simp
  from a c 1 2 show ?thesis by simp
qed

end
